theory Spec2Isabelle
  imports Main "HOL-Library.Multiset"
begin

section \<open>The host: workspace, settings store, notifications, tab module\<close>

text \<open>
  What \<open>extension.ts\<close> reads from the editor about the current workspace:
  \<open>workspaceFile\<close> is the value of \<open>vscode.workspace.workspaceFile?.toString()\<close>
  (\<open>None\<close> when no workspace file is open), \<open>workspaceFolders\<close> is
  \<open>vscode.workspace.workspaceFolders\<close> with every folder given by \<open>uri.toString()\<close>
  (\<open>None\<close> when the host reports \<open>undefined\<close>).
\<close>

record workspace =
  workspaceFile :: "string option"
  workspaceFolders :: "string list option"

text \<open>
  The four settings read through \<open>getSettingValue\<close>. \<open>activation\<close> is \<open>None\<close> when the
  read yields no string.
\<close>

record settings =
  activation :: "string option"
  excludedWorkspaces :: "string list"
  includedWorkspaces :: "string list"
  tabAgeForAutomaticClosing :: int

text \<open>
  The functions imported from \<open>./autoclosetabs\<close>. \<open>extension.ts\<close> only calls them; a call
  is recorded, in order, in the world below.
\<close>

datatype 't call =
    ResetTabTimeCounter 't
  | RemoveTabTimeCounter 't
  | IncrementTabTimeCounter 't
  | CloseTabs int

text \<open>
  Everything a command or the timer callback can change: the settings store, the messages
  shown with \<open>vscode.window.showInformationMessage\<close>, and the calls made into
  \<open>./autoclosetabs\<close>.
\<close>

record 't world =
  config :: settings
  notices :: "string list"
  calls :: "'t call list"

definition showInformationMessage :: "string \<Rightarrow> 't world \<Rightarrow> 't world" where
  "showInformationMessage msg w = w\<lparr>notices := notices w @ [msg]\<rparr>"

definition invoke :: "'t call \<Rightarrow> 't world \<Rightarrow> 't world" where
  "invoke c w = w\<lparr>calls := calls w @ [c]\<rparr>"

definition closeTabs :: "int \<Rightarrow> 't world \<Rightarrow> 't world" where
  "closeTabs threshold w = invoke (CloseTabs threshold) w"

definition incrementTabTimeCounter :: "'t \<Rightarrow> 't world \<Rightarrow> 't world" where
  "incrementTabTimeCounter tab w = invoke (IncrementTabTimeCounter tab) w"

text \<open>
  Modelled from the spec: \<open>updateSettingValue\<close> of \<open>./settings\<close> is not among the sources.
  The spec's configuration store is a read/write store of named settings; a write to a
  list setting replaces the stored list, and any other name leaves the lists alone.
\<close>

definition updateSettingValue :: "string \<Rightarrow> string list \<Rightarrow> 't world \<Rightarrow> 't world" where
  "updateSettingValue settingSection v w =
     (if settingSection = ''autoclosetabs.excludedWorkspaces''
        then w\<lparr>config := (config w)\<lparr>excludedWorkspaces := v\<rparr>\<rparr>
      else if settingSection = ''autoclosetabs.includedWorkspaces''
        then w\<lparr>config := (config w)\<lparr>includedWorkspaces := v\<rparr>\<rparr>
      else w)"

section \<open>extension.ts\<close>

text \<open>JavaScript's \<open>s.startsWith(p)\<close>.\<close>

definition startsWith :: "string \<Rightarrow> string \<Rightarrow> bool" where
  "startsWith s p = (take (length p) s = p)"

text \<open>
  JavaScript's \<open>!workspaceUri\<close> on a \<open>string | null\<close>: true for \<open>null\<close> and for the
  empty string.
\<close>

fun falsy :: "string option \<Rightarrow> bool" where
  "falsy None = True"
| "falsy (Some s) = (s = [])"

definition getWorkspaceUri :: "workspace \<Rightarrow> string option" where
  "getWorkspaceUri h =
     (let workspaceFileUri = workspaceFile h in
      if \<not> falsy workspaceFileUri
         \<and> \<not> (case workspaceFileUri of Some f \<Rightarrow> startsWith f ''untitled:'' | None \<Rightarrow> False)
      then workspaceFileUri
      else
        (case workspaceFolders h of
           Some folders \<Rightarrow> (if length folders = 1 then Some (folders ! 0) else None)
         | None \<Rightarrow> None))"

definition isActiveByDefault :: "settings \<Rightarrow> bool" where
  "isActiveByDefault s = (activation s \<noteq> Some ''nowhere-except-included'')"

definition activateInWorkspace :: "workspace \<Rightarrow> 't world \<Rightarrow> 't world" where
  "activateInWorkspace h w =
     (let workspaceUri = getWorkspaceUri h in
      if falsy workspaceUri
      then showInformationMessage
             ''Auto Close Tabs cannot be activated in a temporary workspace.'' w
      else case workspaceUri of
        None \<Rightarrow> w
      | Some u \<Rightarrow>
          (if isActiveByDefault (config w)
           then updateSettingValue ''autoclosetabs.excludedWorkspaces''
                  (filter (\<lambda>excludedWorkspace. excludedWorkspace \<noteq> u)
                     (excludedWorkspaces (config w))) w
           else updateSettingValue ''autoclosetabs.includedWorkspaces''
                  (includedWorkspaces (config w) @ [u]) w))"

definition deactivateInWorkspace :: "workspace \<Rightarrow> 't world \<Rightarrow> 't world" where
  "deactivateInWorkspace h w =
     (let workspaceUri = getWorkspaceUri h in
      if falsy workspaceUri
      then showInformationMessage
             ''Auto Close Tabs cannot be deactivated in a temporary workspace.'' w
      else case workspaceUri of
        None \<Rightarrow> w
      | Some u \<Rightarrow>
          (if isActiveByDefault (config w)
           then updateSettingValue ''autoclosetabs.excludedWorkspaces''
                  (excludedWorkspaces (config w) @ [u]) w
           else updateSettingValue ''autoclosetabs.includedWorkspaces''
                  (filter (\<lambda>includedWorkspace. includedWorkspace \<noteq> u)
                     (includedWorkspaces (config w))) w))"

text \<open>
  \<open>registerCommands\<close>: the three command identifiers with their handlers, and the host's
  dispatch of a command by its identifier (an unregistered identifier does nothing here).
\<close>

definition registerCommands :: "(string \<times> (workspace \<Rightarrow> 't world \<Rightarrow> 't world)) list" where
  "registerCommands =
     [(''autoclosetabs.closeUnusedTabs'', \<lambda>h. closeTabs 0),
      (''autoclosetabs.activate'', activateInWorkspace),
      (''autoclosetabs.deactivate'', deactivateInWorkspace)]"

definition executeCommand :: "string \<Rightarrow> workspace \<Rightarrow> 't world \<Rightarrow> 't world" where
  "executeCommand command h w =
     (case map_of registerCommands command of
        Some handler \<Rightarrow> handler h w
      | None \<Rightarrow> w)"

definition isActiveInWorkspace :: "settings \<Rightarrow> workspace \<Rightarrow> bool" where
  "isActiveInWorkspace s h =
     (let workspaceUri = getWorkspaceUri h in
      if isActiveByDefault s
      then (if falsy workspaceUri then True
            else (case workspaceUri of
                    Some u \<Rightarrow> \<not> (u \<in> set (excludedWorkspaces s))
                  | None \<Rightarrow> True))
      else (if falsy workspaceUri then False
            else (case workspaceUri of
                    Some u \<Rightarrow> u \<in> set (includedWorkspaces s)
                  | None \<Rightarrow> False)))"

text \<open>
  The callback given to \<open>setInterval\<close> in \<open>activate\<close>: every tab of every tab group is
  passed to \<open>incrementTabTimeCounter\<close>, then \<open>closeTabs\<close> is called when the workspace is
  active.
\<close>

definition timerCallback :: "workspace \<Rightarrow> 't list list \<Rightarrow> 't world \<Rightarrow> 't world" where
  "timerCallback h tabGroups w =
     (let w1 = fold (\<lambda>tabGroup. fold incrementTabTimeCounter tabGroup) tabGroups w in
      if isActiveInWorkspace (config w1) h
      then closeTabs (tabAgeForAutomaticClosing (config w1)) w1
      else w1)"

section \<open>The tab module, from the specification\<close>

text \<open>
  The Age Ledger: a map from tab identity to the number of elapsed ticks.
\<close>

type_synonym 't ledger = "'t \<rightharpoonup> nat"

text \<open>
  Modelled from the spec: \<open>resetTabTimeCounter\<close>, \<open>removeTabTimeCounter\<close> and
  \<open>incrementTabTimeCounter\<close> of \<open>./autoclosetabs\<close> are not among the sources. Following
  section 4.1 and section 7 of the specification: reset sets the counter to 0, creating the
  entry if absent; remove deletes the entry and is a no-op if it is absent; increment adds
  exactly 1 to an existing counter and is a no-op on a missing entry; the Closing Policy
  only reads ages and never mutates the ledger.
\<close>

fun applyCall :: "'t call \<Rightarrow> 't ledger \<Rightarrow> 't ledger" where
  "applyCall (ResetTabTimeCounter t) L = L(t \<mapsto> 0)"
| "applyCall (RemoveTabTimeCounter t) L = L(t := None)"
| "applyCall (IncrementTabTimeCounter t) L =
     (case L t of None \<Rightarrow> L | Some a \<Rightarrow> L(t \<mapsto> a + 1))"
| "applyCall (CloseTabs threshold) L = L"

definition ledgerAfter :: "'t call list \<Rightarrow> 't ledger \<Rightarrow> 't ledger" where
  "ledgerAfter cs L = fold applyCall cs L"

text \<open>
  Modelled from the spec: \<open>closeTabs\<close> of \<open>./autoclosetabs\<close> is not among the sources.
  Following section 4.2 of the specification, steps 1 to 4: the open tabs are the tabs of
  all groups; the candidates are the open tabs whose Age Counter is at least the threshold;
  if the candidate set equals the full open-tab set, the single tab with the smallest Age
  Counter (the first encountered, on ties) is taken out of the candidates; a close request
  is issued for every remaining candidate. \<open>selectAndClose\<close> returns the tabs for which
  a close request is issued.
\<close>

definition candidates :: "int \<Rightarrow> 't ledger \<Rightarrow> 't list \<Rightarrow> 't list" where
  "candidates thresholdTicks L tabs =
     filter (\<lambda>t. case L t of Some a \<Rightarrow> thresholdTicks \<le> int a | None \<Rightarrow> False) tabs"

definition lessAge :: "'t ledger \<Rightarrow> 't \<Rightarrow> 't \<Rightarrow> bool" where
  "lessAge L t m =
     (case L t of
        Some a \<Rightarrow> (case L m of Some b \<Rightarrow> a < b | None \<Rightarrow> False)
      | None \<Rightarrow> False)"

fun youngest :: "'t ledger \<Rightarrow> 't \<Rightarrow> 't list \<Rightarrow> 't" where
  "youngest L m [] = m"
| "youngest L m (t # ts) = youngest L (if lessAge L t m then t else m) ts"

definition selectAndClose :: "int \<Rightarrow> 't ledger \<Rightarrow> 't list list \<Rightarrow> 't list" where
  "selectAndClose thresholdTicks L openTabsByGroup =
     (let openTabs = concat openTabsByGroup;
          cands = candidates thresholdTicks L openTabs
      in case openTabs of
           [] \<Rightarrow> cands
         | t # ts \<Rightarrow>
             (if set cands = set openTabs
              then filter (\<lambda>c. c \<noteq> youngest L t ts) cands
              else cands))"

section \<open>Example inputs\<close>

text \<open>
  A single-folder workspace, a temporary context without file or folder, an unsaved
  multi-root workspace (its workspace file has the \<open>untitled:\<close> scheme) with one folder, and
  a saved workspace file with two folders.
\<close>

abbreviation folderW :: workspace where
  "folderW \<equiv> \<lparr>workspaceFile = None, workspaceFolders = Some [''file:///w'']\<rparr>"

abbreviation temporaryContext :: workspace where
  "temporaryContext \<equiv> \<lparr>workspaceFile = None, workspaceFolders = None\<rparr>"

abbreviation untitledWorkspace :: workspace where
  "untitledWorkspace \<equiv>
     \<lparr>workspaceFile = Some ''untitled:Untitled-1'', workspaceFolders = Some [''file:///w'']\<rparr>"

abbreviation savedWorkspace :: workspace where
  "savedWorkspace \<equiv>
     \<lparr>workspaceFile = Some ''file:///p.code-workspace'',
      workspaceFolders = Some [''file:///a'', ''file:///b'']\<rparr>"

abbreviation activeByDefault :: "string list \<Rightarrow> string list \<Rightarrow> settings" where
  "activeByDefault excluded included \<equiv>
     \<lparr>activation = Some ''everywhere-except-excluded'', excludedWorkspaces = excluded,
      includedWorkspaces = included, tabAgeForAutomaticClosing = 30\<rparr>"

abbreviation inactiveByDefault :: "string list \<Rightarrow> string list \<Rightarrow> settings" where
  "inactiveByDefault excluded included \<equiv>
     \<lparr>activation = Some ''nowhere-except-included'', excludedWorkspaces = excluded,
      includedWorkspaces = included, tabAgeForAutomaticClosing = 30\<rparr>"

abbreviation quiet :: "settings \<Rightarrow> nat world" where
  "quiet s \<equiv> \<lparr>config = s, notices = [], calls = []\<rparr>"

section \<open>Activation Resolver\<close>

lemma falsy_iff: "falsy x \<longleftrightarrow> x = None \<or> x = Some []"
  by (cases x) auto

lemma getWorkspaceUri_folderW: "getWorkspaceUri folderW = Some ''file:///w''"
  by (simp add: getWorkspaceUri_def)

lemma getWorkspaceUri_temporaryContext: "getWorkspaceUri temporaryContext = None"
  by (simp add: getWorkspaceUri_def)

text \<open>
  C1. The decision table of \<open>isActiveInWorkspace\<close>. A URI of the host never serialises to
  the empty string (its scheme is mandatory), which is the hypothesis. In default-active
  mode the result is true when no identifier resolves and otherwise true exactly when the
  identifier is not in the excluded-workspaces list; in default-inactive mode the result is
  false when no identifier resolves and otherwise true exactly when the identifier is in
  the included-workspaces list.
\<close>

theorem isActiveInWorkspace_decision_table:
  assumes "getWorkspaceUri h \<noteq> Some []"
  shows "isActiveInWorkspace s h =
     (if isActiveByDefault s
      then (case getWorkspaceUri h of
              None \<Rightarrow> True
            | Some u \<Rightarrow> u \<notin> set (excludedWorkspaces s))
      else (case getWorkspaceUri h of
              None \<Rightarrow> False
            | Some u \<Rightarrow> u \<in> set (includedWorkspaces s)))"
  using assms
  by (cases "getWorkspaceUri h") (simp_all add: isActiveInWorkspace_def)

theorem isActiveInWorkspace_decision_table_witness:
  "getWorkspaceUri folderW \<noteq> Some []
   \<and> isActiveInWorkspace (activeByDefault [''file:///w''] []) folderW = False
   \<and> isActiveInWorkspace (inactiveByDefault [''file:///w''] []) folderW = False
   \<and> isActiveInWorkspace (inactiveByDefault [] [''file:///w'']) folderW = True"
proof -
  have h: "getWorkspaceUri folderW \<noteq> Some []"
    by (simp add: getWorkspaceUri_folderW)
  show ?thesis
    using h
      isActiveInWorkspace_decision_table [OF h, of "activeByDefault [''file:///w''] []"]
      isActiveInWorkspace_decision_table [OF h, of "inactiveByDefault [''file:///w''] []"]
      isActiveInWorkspace_decision_table [OF h, of "inactiveByDefault [] [''file:///w'']"]
    by (simp add: getWorkspaceUri_folderW isActiveByDefault_def)
qed

lemma resolved_activate:
  assumes "getWorkspaceUri h = Some u" and "u \<noteq> []"
  shows "activateInWorkspace h w =
     (if isActiveByDefault (config w)
      then w\<lparr>config := (config w)\<lparr>excludedWorkspaces :=
              filter (\<lambda>x. x \<noteq> u) (excludedWorkspaces (config w))\<rparr>\<rparr>
      else w\<lparr>config := (config w)\<lparr>includedWorkspaces :=
              includedWorkspaces (config w) @ [u]\<rparr>\<rparr>)"
  using assms by (simp add: activateInWorkspace_def updateSettingValue_def)

lemma resolved_deactivate:
  assumes "getWorkspaceUri h = Some u" and "u \<noteq> []"
  shows "deactivateInWorkspace h w =
     (if isActiveByDefault (config w)
      then w\<lparr>config := (config w)\<lparr>excludedWorkspaces :=
              excludedWorkspaces (config w) @ [u]\<rparr>\<rparr>
      else w\<lparr>config := (config w)\<lparr>includedWorkspaces :=
              filter (\<lambda>x. x \<noteq> u) (includedWorkspaces (config w))\<rparr>\<rparr>)"
  using assms by (simp add: deactivateInWorkspace_def updateSettingValue_def)

lemma activate_keeps_mode:
  assumes "getWorkspaceUri h = Some u" and "u \<noteq> []"
  shows "isActiveByDefault (config (activateInWorkspace h w)) = isActiveByDefault (config w)"
  by (simp add: resolved_activate [OF assms] isActiveByDefault_def)

lemma mset_refresh_iff:
  "mset (filter (\<lambda>x. x \<noteq> u) xs @ [u]) = mset xs \<longleftrightarrow> count (mset xs) u = 1"
  by (auto simp: multiset_eq_iff)

lemma mset_filter_absent_iff:
  "mset (filter (\<lambda>x. x \<noteq> u) xs) = mset xs \<longleftrightarrow> u \<notin> set xs"
  by (auto simp: multiset_eq_iff count_eq_zero_iff)

text \<open>
  C2, as the code has it. For a resolvable identifier, \<open>deactivate\<close> in default-active
  mode appends the identifier to excluded-workspaces and \<open>activate\<close> in default-inactive
  mode appends it to included-workspaces, with no membership test. The members of the list
  afterwards are the old members and the identifier (so membership does not change when it
  was already present), and a duplicate-free list stays duplicate-free exactly when the
  identifier was absent.
\<close>

theorem override_lists_append:
  assumes "getWorkspaceUri h = Some u" and "u \<noteq> []"
  shows "(isActiveByDefault (config w) \<longrightarrow>
            excludedWorkspaces (config (deactivateInWorkspace h w))
              = excludedWorkspaces (config w) @ [u]
          \<and> set (excludedWorkspaces (config (deactivateInWorkspace h w)))
              = insert u (set (excludedWorkspaces (config w)))
          \<and> (distinct (excludedWorkspaces (config w)) \<longrightarrow>
               (distinct (excludedWorkspaces (config (deactivateInWorkspace h w)))
                 \<longleftrightarrow> u \<notin> set (excludedWorkspaces (config w)))))
       \<and> (\<not> isActiveByDefault (config w) \<longrightarrow>
            includedWorkspaces (config (activateInWorkspace h w))
              = includedWorkspaces (config w) @ [u]
          \<and> set (includedWorkspaces (config (activateInWorkspace h w)))
              = insert u (set (includedWorkspaces (config w)))
          \<and> (distinct (includedWorkspaces (config w)) \<longrightarrow>
               (distinct (includedWorkspaces (config (activateInWorkspace h w)))
                 \<longleftrightarrow> u \<notin> set (includedWorkspaces (config w)))))"
  by (simp add: resolved_deactivate [OF assms] resolved_activate [OF assms])

theorem override_lists_append_witness:
  "getWorkspaceUri folderW = Some ''file:///w'' \<and> ''file:///w'' \<noteq> []
   \<and> isActiveByDefault (config (quiet (activeByDefault [''file:///a''] [])))
   \<and> distinct (excludedWorkspaces (config (quiet (activeByDefault [''file:///a''] []))))
   \<and> excludedWorkspaces
        (config (deactivateInWorkspace folderW (quiet (activeByDefault [''file:///a''] []))))
       = [''file:///a'', ''file:///w'']
   \<and> \<not> isActiveByDefault (config (quiet (inactiveByDefault [] [''file:///a''])))
   \<and> distinct (includedWorkspaces (config (quiet (inactiveByDefault [] [''file:///a'']))))
   \<and> includedWorkspaces
        (config (activateInWorkspace folderW (quiet (inactiveByDefault [] [''file:///a'']))))
       = [''file:///a'', ''file:///w'']"
proof -
  have u: "getWorkspaceUri folderW = Some ''file:///w''"
    by (rule getWorkspaceUri_folderW)
  have n: "''file:///w'' \<noteq> []"
    by simp
  show ?thesis
    using u
      override_lists_append [OF u n, of "quiet (activeByDefault [''file:///a''] [])"]
      override_lists_append [OF u n, of "quiet (inactiveByDefault [] [''file:///a''])"]
    by (simp add: isActiveByDefault_def)
qed

text \<open>
  C2 as stated fails: in default-active mode with the identifier already excluded,
  \<open>deactivate\<close> is not a no-op on the list and leaves the identifier in it twice.
\<close>

theorem deactivate_twice_counterexample:
  "getWorkspaceUri folderW = Some ''file:///w''
   \<and> isActiveByDefault (config (quiet (activeByDefault [''file:///w''] [])))
   \<and> ''file:///w'' \<in> set (excludedWorkspaces (config (quiet (activeByDefault [''file:///w''] []))))
   \<and> excludedWorkspaces
        (config (deactivateInWorkspace folderW (quiet (activeByDefault [''file:///w''] []))))
       = [''file:///w'', ''file:///w'']
   \<and> excludedWorkspaces
        (config (deactivateInWorkspace folderW (quiet (activeByDefault [''file:///w''] []))))
       \<noteq> excludedWorkspaces (config (quiet (activeByDefault [''file:///w''] [])))
   \<and> \<not> distinct (excludedWorkspaces
        (config (deactivateInWorkspace folderW (quiet (activeByDefault [''file:///w''] [])))))"
  by (simp add: deactivateInWorkspace_def updateSettingValue_def getWorkspaceUri_def
      isActiveByDefault_def)

text \<open>
  C3, as the code has it. For a resolvable identifier \<open>u\<close>, \<open>activate\<close> followed by
  \<open>deactivate\<close> leaves the list of the other mode untouched. In default-active mode
  excluded-workspaces ends as the original without \<open>u\<close>, followed by one \<open>u\<close>; that is the
  original as a multiset exactly when \<open>u\<close> occurred in it exactly once. In default-inactive
  mode included-workspaces ends as the original without \<open>u\<close>; that is the original
  exactly when \<open>u\<close> was absent.
\<close>

theorem activate_then_deactivate:
  assumes "getWorkspaceUri h = Some u" and "u \<noteq> []"
  shows "(isActiveByDefault (config w) \<longrightarrow>
            includedWorkspaces (config (deactivateInWorkspace h (activateInWorkspace h w)))
              = includedWorkspaces (config w)
          \<and> excludedWorkspaces (config (deactivateInWorkspace h (activateInWorkspace h w)))
              = filter (\<lambda>x. x \<noteq> u) (excludedWorkspaces (config w)) @ [u]
          \<and> (mset (excludedWorkspaces
                      (config (deactivateInWorkspace h (activateInWorkspace h w))))
                = mset (excludedWorkspaces (config w))
              \<longleftrightarrow> count (mset (excludedWorkspaces (config w))) u = 1))
       \<and> (\<not> isActiveByDefault (config w) \<longrightarrow>
            excludedWorkspaces (config (deactivateInWorkspace h (activateInWorkspace h w)))
              = excludedWorkspaces (config w)
          \<and> includedWorkspaces (config (deactivateInWorkspace h (activateInWorkspace h w)))
              = filter (\<lambda>x. x \<noteq> u) (includedWorkspaces (config w))
          \<and> (mset (includedWorkspaces
                      (config (deactivateInWorkspace h (activateInWorkspace h w))))
                = mset (includedWorkspaces (config w))
              \<longleftrightarrow> u \<notin> set (includedWorkspaces (config w))))"
proof -
  let ?w' = "deactivateInWorkspace h (activateInWorkspace h w)"
  note mode = activate_keeps_mode [OF assms, of w]
  have act: "isActiveByDefault (config w) \<Longrightarrow>
      includedWorkspaces (config ?w') = includedWorkspaces (config w)
      \<and> excludedWorkspaces (config ?w')
          = filter (\<lambda>x. x \<noteq> u) (excludedWorkspaces (config w)) @ [u]"
    by (simp add: resolved_deactivate [OF assms] mode) (simp add: resolved_activate [OF assms])
  have inact: "\<not> isActiveByDefault (config w) \<Longrightarrow>
      excludedWorkspaces (config ?w') = excludedWorkspaces (config w)
      \<and> includedWorkspaces (config ?w')
          = filter (\<lambda>x. x \<noteq> u) (includedWorkspaces (config w))"
    by (simp add: resolved_deactivate [OF assms] mode) (simp add: resolved_activate [OF assms])
  show ?thesis
  proof (cases "isActiveByDefault (config w)")
    case True
    from act [OF True] show ?thesis
      using True mset_refresh_iff [of u "excludedWorkspaces (config w)"] by presburger
  next
    case False
    from inact [OF False] show ?thesis
      using False mset_filter_absent_iff [of u "includedWorkspaces (config w)"] by presburger
  qed
qed

theorem activate_then_deactivate_witness:
  "getWorkspaceUri folderW = Some ''file:///w'' \<and> ''file:///w'' \<noteq> []
   \<and> isActiveByDefault (config (quiet (activeByDefault [''file:///w'', ''file:///a''] [])))
   \<and> excludedWorkspaces (config (deactivateInWorkspace folderW (activateInWorkspace folderW
        (quiet (activeByDefault [''file:///w'', ''file:///a''] [])))))
       = [''file:///a'', ''file:///w'']
   \<and> \<not> isActiveByDefault (config (quiet (inactiveByDefault [] [''file:///a''])))
   \<and> includedWorkspaces (config (deactivateInWorkspace folderW (activateInWorkspace folderW
        (quiet (inactiveByDefault [] [''file:///a''])))))
       = [''file:///a'']"
proof -
  have u: "getWorkspaceUri folderW = Some ''file:///w''"
    by (rule getWorkspaceUri_folderW)
  have n: "''file:///w'' \<noteq> []"
    by simp
  show ?thesis
    using u
      activate_then_deactivate [OF u n,
        of "quiet (activeByDefault [''file:///w'', ''file:///a''] [])"]
      activate_then_deactivate [OF u n, of "quiet (inactiveByDefault [] [''file:///a''])"]
    by (simp add: isActiveByDefault_def)
qed

text \<open>
  C3 as stated fails: in default-active mode with an empty excluded-workspaces list,
  \<open>activate\<close> then \<open>deactivate\<close> ends with the identifier excluded.
\<close>

theorem roundtrip_counterexample:
  "getWorkspaceUri folderW = Some ''file:///w''
   \<and> excludedWorkspaces (config (quiet (activeByDefault [] []))) = []
   \<and> excludedWorkspaces (config (deactivateInWorkspace folderW (activateInWorkspace folderW
        (quiet (activeByDefault [] [])))))
       = [''file:///w'']
   \<and> mset (excludedWorkspaces (config (deactivateInWorkspace folderW
        (activateInWorkspace folderW (quiet (activeByDefault [] []))))))
       \<noteq> mset (excludedWorkspaces (config (quiet (activeByDefault [] []))))"
  by (simp add: deactivateInWorkspace_def activateInWorkspace_def updateSettingValue_def
      getWorkspaceUri_def isActiveByDefault_def)

section \<open>Workspace Identifier\<close>

text \<open>
  C5, as the code has it. The identifier is the workspace-file URI when a workspace file
  is open whose URI string is non-empty and does not start with \<open>untitled:\<close>; otherwise
  it is the sole workspace folder's URI when exactly one folder is open; otherwise no
  identifier resolves. When none resolves, the resolver answers with the default of the
  mode, whatever the two override lists hold.
\<close>

theorem getWorkspaceUri_cases:
  "(\<forall>f. workspaceFile h = Some f \<and> f \<noteq> [] \<and> \<not> startsWith f ''untitled:''
        \<longrightarrow> getWorkspaceUri h = Some f)
   \<and> (workspaceFile h = None
        \<or> (\<exists>f. workspaceFile h = Some f \<and> (f = [] \<or> startsWith f ''untitled:''))
      \<longrightarrow> (\<forall>d. workspaceFolders h = Some [d] \<longrightarrow> getWorkspaceUri h = Some d)
          \<and> ((\<forall>d. workspaceFolders h \<noteq> Some [d]) \<longrightarrow> getWorkspaceUri h = None))
   \<and> (getWorkspaceUri h = None \<longrightarrow> isActiveInWorkspace s h = isActiveByDefault s)"
proof (intro conjI allI impI)
  fix f
  assume "workspaceFile h = Some f \<and> f \<noteq> [] \<and> \<not> startsWith f ''untitled:''"
  then show "getWorkspaceUri h = Some f"
    by (simp add: getWorkspaceUri_def)
next
  fix d
  assume "workspaceFile h = None
          \<or> (\<exists>f. workspaceFile h = Some f \<and> (f = [] \<or> startsWith f ''untitled:''))"
    and "workspaceFolders h = Some [d]"
  then show "getWorkspaceUri h = Some d"
    by (auto simp: getWorkspaceUri_def)
next
  assume skip: "workspaceFile h = None
          \<or> (\<exists>f. workspaceFile h = Some f \<and> (f = [] \<or> startsWith f ''untitled:''))"
    and none: "\<forall>d. workspaceFolders h \<noteq> Some [d]"
  have "length folders \<noteq> 1" if "workspaceFolders h = Some folders" for folders
  proof
    assume "length folders = 1"
    then obtain d where "folders = [d]"
      by (cases folders) auto
    with that none show False
      by simp
  qed
  with skip show "getWorkspaceUri h = None"
    by (auto simp: getWorkspaceUri_def split: option.splits)
next
  assume "getWorkspaceUri h = None"
  then show "isActiveInWorkspace s h = isActiveByDefault s"
    by (simp add: isActiveInWorkspace_def)
qed

theorem getWorkspaceUri_cases_witness:
  "workspaceFile savedWorkspace = Some ''file:///p.code-workspace''
   \<and> ''file:///p.code-workspace'' \<noteq> []
   \<and> \<not> startsWith ''file:///p.code-workspace'' ''untitled:''
   \<and> getWorkspaceUri savedWorkspace = Some ''file:///p.code-workspace''
   \<and> startsWith ''untitled:Untitled-1'' ''untitled:''
   \<and> getWorkspaceUri untitledWorkspace = Some ''file:///w''
   \<and> getWorkspaceUri temporaryContext = None
   \<and> isActiveInWorkspace (inactiveByDefault [] [''file:///w'']) temporaryContext = False"
proof -
  have a: "workspaceFile savedWorkspace = Some ''file:///p.code-workspace''
           \<and> ''file:///p.code-workspace'' \<noteq> []
           \<and> \<not> startsWith ''file:///p.code-workspace'' ''untitled:''"
    by (simp add: startsWith_def)
  have b: "startsWith ''untitled:Untitled-1'' ''untitled:''"
    by (simp add: startsWith_def)
  show ?thesis
    using a b
      getWorkspaceUri_cases [of savedWorkspace "inactiveByDefault [] [''file:///w'']"]
      getWorkspaceUri_cases [of untitledWorkspace "inactiveByDefault [] [''file:///w'']"]
      getWorkspaceUri_cases [of temporaryContext "inactiveByDefault [] [''file:///w'']"]
    by (simp add: isActiveByDefault_def)
qed

text \<open>
  C5 as stated fails: with an unsaved workspace file open and one folder, the identifier
  is the folder's URI, not the workspace-file URI.
\<close>

theorem untitled_workspace_counterexample:
  "workspaceFile untitledWorkspace = Some ''untitled:Untitled-1''
   \<and> getWorkspaceUri untitledWorkspace = Some ''file:///w''
   \<and> getWorkspaceUri untitledWorkspace \<noteq> workspaceFile untitledWorkspace"
  by (simp add: getWorkspaceUri_def startsWith_def)

section \<open>Commands without a Workspace Identifier\<close>

text \<open>
  C6. When no Workspace Identifier is resolvable (the code's test \<open>!workspaceUri\<close>, which
  \<open>null\<close> satisfies), \<open>activate\<close> and \<open>deactivate\<close> change nothing but the notices: the
  settings, both override lists among them, are as before, and each command shows its
  message that it cannot be applied in a temporary workspace.
\<close>

theorem commands_without_identifier:
  assumes "falsy (getWorkspaceUri h)"
  shows "activateInWorkspace h w
           = w\<lparr>notices := notices w
                 @ [''Auto Close Tabs cannot be activated in a temporary workspace.'']\<rparr>
       \<and> deactivateInWorkspace h w
           = w\<lparr>notices := notices w
                 @ [''Auto Close Tabs cannot be deactivated in a temporary workspace.'']\<rparr>
       \<and> config (activateInWorkspace h w) = config w
       \<and> config (deactivateInWorkspace h w) = config w
       \<and> calls (activateInWorkspace h w) = calls w
       \<and> calls (deactivateInWorkspace h w) = calls w"
  using assms
  by (simp add: activateInWorkspace_def deactivateInWorkspace_def showInformationMessage_def)

theorem commands_without_identifier_witness:
  "falsy (getWorkspaceUri temporaryContext)
   \<and> activateInWorkspace temporaryContext (quiet (inactiveByDefault [] [''file:///a'']))
       = \<lparr>config = inactiveByDefault [] [''file:///a''],
          notices = [''Auto Close Tabs cannot be activated in a temporary workspace.''],
          calls = []\<rparr>
   \<and> deactivateInWorkspace temporaryContext (quiet (inactiveByDefault [] [''file:///a'']))
       = \<lparr>config = inactiveByDefault [] [''file:///a''],
          notices = [''Auto Close Tabs cannot be deactivated in a temporary workspace.''],
          calls = []\<rparr>"
proof -
  have h: "falsy (getWorkspaceUri temporaryContext)"
    by (simp add: getWorkspaceUri_temporaryContext)
  show ?thesis
    using h
      commands_without_identifier [OF h, of "quiet (inactiveByDefault [] [''file:///a''])"]
    by simp
qed

section \<open>Activation mode\<close>

text \<open>
  C10. The resolver is in default-active mode for every value of the activation setting
  other than the exact string \<open>nowhere-except-included\<close>, an unset value and the empty
  string among them; that one string selects default-inactive mode. In default-active mode
  the workspace is active unless an identifier resolves and is excluded; in default-inactive
  mode it is active only if an identifier resolves and is included.
\<close>

theorem activation_mode_selection:
  "(isActiveByDefault s \<longleftrightarrow> activation s \<noteq> Some ''nowhere-except-included'')
   \<and> (activation s \<noteq> Some ''nowhere-except-included'' \<longrightarrow>
        isActiveInWorkspace s h
          = (falsy (getWorkspaceUri h)
             \<or> (\<exists>u. getWorkspaceUri h = Some u \<and> u \<notin> set (excludedWorkspaces s))))
   \<and> (activation s = Some ''nowhere-except-included'' \<longrightarrow>
        isActiveInWorkspace s h
          = (\<not> falsy (getWorkspaceUri h)
             \<and> (\<exists>u. getWorkspaceUri h = Some u \<and> u \<in> set (includedWorkspaces s))))"
  by (cases "getWorkspaceUri h") (simp_all add: isActiveByDefault_def isActiveInWorkspace_def)

theorem activation_mode_selection_witness:
  "isActiveByDefault \<lparr>activation = None, excludedWorkspaces = [], includedWorkspaces = [],
                       tabAgeForAutomaticClosing = 30\<rparr>
   \<and> isActiveByDefault \<lparr>activation = Some [], excludedWorkspaces = [],
                         includedWorkspaces = [], tabAgeForAutomaticClosing = 30\<rparr>
   \<and> isActiveByDefault \<lparr>activation = Some ''Nowhere-Except-Included'',
                         excludedWorkspaces = [], includedWorkspaces = [],
                         tabAgeForAutomaticClosing = 30\<rparr>
   \<and> isActiveInWorkspace \<lparr>activation = None, excludedWorkspaces = [],
                           includedWorkspaces = [], tabAgeForAutomaticClosing = 30\<rparr>
        temporaryContext
   \<and> \<not> isActiveByDefault (inactiveByDefault [] [])
   \<and> \<not> isActiveInWorkspace (inactiveByDefault [] []) temporaryContext"
  using
    activation_mode_selection [of "\<lparr>activation = None, excludedWorkspaces = [],
      includedWorkspaces = [], tabAgeForAutomaticClosing = 30\<rparr>" temporaryContext]
    activation_mode_selection [of "\<lparr>activation = Some [], excludedWorkspaces = [],
      includedWorkspaces = [], tabAgeForAutomaticClosing = 30\<rparr>" temporaryContext]
    activation_mode_selection [of "\<lparr>activation = Some ''Nowhere-Except-Included'',
      excludedWorkspaces = [], includedWorkspaces = [],
      tabAgeForAutomaticClosing = 30\<rparr>" temporaryContext]
    activation_mode_selection [of "inactiveByDefault [] []" temporaryContext]
  by (simp add: getWorkspaceUri_temporaryContext)

section \<open>The manual command\<close>

text \<open>
  C9. The command \<open>autoclosetabs.closeUnusedTabs\<close> calls \<open>closeTabs\<close> once, with threshold
  0, in every world and every workspace: the configured age threshold and the activation
  state play no part, and nothing else changes.
\<close>

theorem closeUnusedTabs_threshold_zero:
  "executeCommand ''autoclosetabs.closeUnusedTabs'' h w = w\<lparr>calls := calls w @ [CloseTabs 0]\<rparr>"
  by (simp add: executeCommand_def registerCommands_def closeTabs_def invoke_def)

section \<open>The timer callback\<close>

lemma calls_increment_group:
  "calls (fold incrementTabTimeCounter tabGroup w)
     = calls w @ map IncrementTabTimeCounter tabGroup"
  by (induction tabGroup arbitrary: w) (simp_all add: incrementTabTimeCounter_def invoke_def)

lemma config_increment_group: "config (fold incrementTabTimeCounter tabGroup w) = config w"
  by (induction tabGroup arbitrary: w) (simp_all add: incrementTabTimeCounter_def invoke_def)

lemma calls_increment_groups:
  "calls (fold (\<lambda>tabGroup. fold incrementTabTimeCounter tabGroup) tabGroups w)
     = calls w @ map IncrementTabTimeCounter (concat tabGroups)"
  by (induction tabGroups arbitrary: w) (simp_all add: calls_increment_group)

lemma config_increment_groups:
  "config (fold (\<lambda>tabGroup. fold incrementTabTimeCounter tabGroup) tabGroups w) = config w"
  by (induction tabGroups arbitrary: w) (simp_all add: config_increment_group)

lemma ledger_other_tab:
  "t \<notin> set ts \<Longrightarrow> ledgerAfter (map IncrementTabTimeCounter ts) L t = L t"
  unfolding ledgerAfter_def
  by (induction ts arbitrary: L) (auto split: option.splits)

lemma ledger_open_tab:
  "distinct ts \<Longrightarrow> t \<in> set ts \<Longrightarrow>
     ledgerAfter (map IncrementTabTimeCounter ts) L t = map_option Suc (L t)"
proof (induction ts arbitrary: L)
  case Nil
  then show ?case by simp
next
  case (Cons x xs)
  let ?L' = "applyCall (IncrementTabTimeCounter x) L"
  show ?case
  proof (cases "t = x")
    case True
    then have "t \<notin> set xs"
      using Cons.prems by simp
    then have "ledgerAfter (map IncrementTabTimeCounter xs) ?L' t = ?L' t"
      by (rule ledger_other_tab)
    then show ?thesis
      using True by (simp add: ledgerAfter_def split: option.splits)
  next
    case False
    then have "distinct xs" and "t \<in> set xs"
      using Cons.prems by auto
    then have "ledgerAfter (map IncrementTabTimeCounter xs) ?L' t = map_option Suc (?L' t)"
      by (rule Cons.IH)
    then show ?thesis
      using False by (simp add: ledgerAfter_def split: option.splits)
  qed
qed

text \<open>
  C7. The calls a tick makes are one \<open>incrementTabTimeCounter\<close> for every tab of every tab
  group, in order, followed only by calls of \<open>closeTabs\<close>: every increment is done before
  closing is evaluated. With the tabs of the groups pairwise distinct, the ledger after the
  increments holds every open tab's counter raised by exactly 1 (a tab without a counter
  still has none), and the counters of all other tabs are as before.
\<close>

theorem tick_increments_before_closing:
  assumes "distinct (concat tabGroups)"
  shows "\<exists>closing.
           calls (timerCallback h tabGroups w)
             = calls w @ map IncrementTabTimeCounter (concat tabGroups) @ closing
         \<and> (\<forall>c\<in>set closing. \<exists>threshold. c = CloseTabs threshold)
         \<and> (\<forall>t. ledgerAfter (map IncrementTabTimeCounter (concat tabGroups)) L t
                 = (if t \<in> set (concat tabGroups) then map_option Suc (L t) else L t))"
proof -
  let ?closing = "if isActiveInWorkspace (config w) h
                  then [CloseTabs (tabAgeForAutomaticClosing (config w))] else []"
  have "calls (timerCallback h tabGroups w)
          = calls w @ map IncrementTabTimeCounter (concat tabGroups) @ ?closing"
    by (simp add: timerCallback_def Let_def closeTabs_def invoke_def
        calls_increment_groups config_increment_groups)
  moreover have "\<forall>c\<in>set ?closing. \<exists>threshold. c = CloseTabs threshold"
    by simp
  moreover have "\<forall>t. ledgerAfter (map IncrementTabTimeCounter (concat tabGroups)) L t
                   = (if t \<in> set (concat tabGroups) then map_option Suc (L t) else L t)"
    using assms ledger_open_tab [of "concat tabGroups"] ledger_other_tab [of _ "concat tabGroups"]
    by simp
  ultimately show ?thesis
    by blast
qed

theorem tick_increments_before_closing_witness:
  "distinct (concat [[1, 2], [3 :: nat]])
   \<and> ledgerAfter (map IncrementTabTimeCounter (concat [[1, 2], [3 :: nat]]))
        [1 \<mapsto> 31, 2 \<mapsto> 5, 7 \<mapsto> 4] 1 = Some 32
   \<and> ledgerAfter (map IncrementTabTimeCounter (concat [[1, 2], [3 :: nat]]))
        [1 \<mapsto> 31, 2 \<mapsto> 5, 7 \<mapsto> 4] 2 = Some 6
   \<and> ledgerAfter (map IncrementTabTimeCounter (concat [[1, 2], [3 :: nat]]))
        [1 \<mapsto> 31, 2 \<mapsto> 5, 7 \<mapsto> 4] 3 = None
   \<and> ledgerAfter (map IncrementTabTimeCounter (concat [[1, 2], [3 :: nat]]))
        [1 \<mapsto> 31, 2 \<mapsto> 5, 7 \<mapsto> 4] 7 = Some 4"
proof -
  have d: "distinct (concat [[1, 2], [3 :: nat]])"
    by simp
  from tick_increments_before_closing [OF d, of folderW "quiet (activeByDefault [] [])"
      "[1 \<mapsto> 31, 2 \<mapsto> 5, 7 \<mapsto> 4]"]
  have "\<forall>t. ledgerAfter (map IncrementTabTimeCounter (concat [[1, 2], [3 :: nat]]))
               [1 \<mapsto> 31, 2 \<mapsto> 5, 7 \<mapsto> 4] t
             = (if t \<in> set (concat [[1, 2], [3 :: nat]])
                then map_option Suc ([1 \<mapsto> 31, 2 \<mapsto> 5, 7 \<mapsto> 4] t)
                else [1 \<mapsto> 31, 2 \<mapsto> 5, 7 \<mapsto> 4] t)"
    by blast
  with d show ?thesis
    by simp
qed

text \<open>
  C8. A tick calls \<open>closeTabs\<close> if and only if \<open>isActiveInWorkspace\<close> holds at that tick,
  and then once, after the increments, with the configured
  \<open>autoclosetabs.tabAgeForAutomaticClosing\<close>; the settings are as before.
\<close>

theorem tick_closes_iff_active:
  "calls (timerCallback h tabGroups w)
     = calls w @ map IncrementTabTimeCounter (concat tabGroups)
         @ (if isActiveInWorkspace (config w) h
            then [CloseTabs (tabAgeForAutomaticClosing (config w))] else [])
   \<and> ((\<exists>threshold. CloseTabs threshold
          \<in> set (drop (length (calls w)) (calls (timerCallback h tabGroups w))))
        \<longleftrightarrow> isActiveInWorkspace (config w) h)
   \<and> config (timerCallback h tabGroups w) = config w"
proof -
  have c: "calls (timerCallback h tabGroups w)
     = calls w @ map IncrementTabTimeCounter (concat tabGroups)
         @ (if isActiveInWorkspace (config w) h
            then [CloseTabs (tabAgeForAutomaticClosing (config w))] else [])"
    by (simp add: timerCallback_def Let_def closeTabs_def invoke_def
        calls_increment_groups config_increment_groups)
  have s: "config (timerCallback h tabGroups w) = config w"
    by (simp add: timerCallback_def Let_def closeTabs_def invoke_def config_increment_groups)
  have "(\<exists>threshold. CloseTabs threshold
          \<in> set (drop (length (calls w)) (calls (timerCallback h tabGroups w))))
        \<longleftrightarrow> isActiveInWorkspace (config w) h"
    unfolding c by auto
  with c s show ?thesis
    by blast
qed

theorem tick_closes_iff_active_witness:
  "isActiveInWorkspace (config (quiet (activeByDefault [] []))) folderW
   \<and> calls (timerCallback folderW [[1, 2], [3]] (quiet (activeByDefault [] [])))
       = [IncrementTabTimeCounter 1, IncrementTabTimeCounter 2, IncrementTabTimeCounter 3,
          CloseTabs 30]
   \<and> \<not> isActiveInWorkspace (config (quiet (activeByDefault [''file:///w''] []))) folderW
   \<and> calls (timerCallback folderW [[1, 2], [3]] (quiet (activeByDefault [''file:///w''] [])))
       = [IncrementTabTimeCounter 1, IncrementTabTimeCounter 2, IncrementTabTimeCounter 3]"
proof -
  have a: "isActiveInWorkspace (config (quiet (activeByDefault [] []))) folderW"
    by (simp add: isActiveInWorkspace_def isActiveByDefault_def getWorkspaceUri_folderW)
  have b: "\<not> isActiveInWorkspace (config (quiet (activeByDefault [''file:///w''] []))) folderW"
    by (simp add: isActiveInWorkspace_def isActiveByDefault_def getWorkspaceUri_folderW)
  show ?thesis
    using a b
      tick_closes_iff_active [of folderW "[[1, 2], [3]]" "quiet (activeByDefault [] [])"]
      tick_closes_iff_active [of folderW "[[1, 2], [3]]"
        "quiet (activeByDefault [''file:///w''] [])"]
    by simp
qed

section \<open>Closing Policy\<close>

lemma candidates_subset: "set (candidates threshold L tabs) \<subseteq> set tabs"
  by (simp add: candidates_def)

lemma candidates_all_aged:
  "set (candidates threshold L tabs) = set tabs \<Longrightarrow> t \<in> set tabs \<Longrightarrow> \<exists>a. L t = Some a"
  by (auto simp: candidates_def split: option.splits)

lemma candidates_all_eq:
  assumes "set (candidates threshold L tabs) = set tabs"
  shows "candidates threshold L tabs = tabs"
proof -
  have "\<forall>t\<in>set tabs. (case L t of Some a \<Rightarrow> threshold \<le> int a | None \<Rightarrow> False)"
    using assms unfolding candidates_def by auto
  then show ?thesis
    unfolding candidates_def by (simp only: filter_id_conv)
qed

lemma youngest_in: "youngest L m ts \<in> set (m # ts)"
  by (induction ts arbitrary: m) auto

lemma youngest_position:
  assumes "\<forall>t\<in>set (m # ts). L t \<noteq> None"
  shows "\<exists>pre post. m # ts = pre @ youngest L m ts # post
           \<and> (\<forall>t\<in>set pre. lessAge L (youngest L m ts) t)
           \<and> (\<forall>t\<in>set post. \<not> lessAge L t (youngest L m ts))"
  using assms
proof (induction ts arbitrary: m)
  case Nil
  have "[m] = [] @ youngest L m [] # []"
    by simp
  then show ?case
    by (metis empty_iff list.set(1))
next
  case (Cons x xs)
  let ?m' = "if lessAge L x m then x else m"
  let ?y = "youngest L ?m' xs"
  have aged: "\<forall>t\<in>set (?m' # xs). L t \<noteq> None"
    using Cons.prems by auto
  from Cons.IH [OF aged] obtain pre post where
    split: "?m' # xs = pre @ ?y # post"
    and before: "\<forall>t\<in>set pre. lessAge L ?y t"
    and after: "\<forall>t\<in>set post. \<not> lessAge L t ?y"
    by blast
  obtain a b where ages: "L m = Some a" "L x = Some b"
    using Cons.prems by auto
  have y: "youngest L m (x # xs) = ?y"
    by simp
  show ?case
  proof (cases pre)
    case Nil
    then have ym: "?y = ?m'" and post: "post = xs"
      using split by auto
    show ?thesis
    proof (cases "lessAge L x m")
      case True
      then have "m # x # xs = [m] @ ?y # post"
        using ym post by simp
      moreover have "\<forall>t\<in>set [m]. lessAge L ?y t"
        using True ym by simp
      ultimately show ?thesis
        using after y by metis
    next
      case False
      then have "m # x # xs = [] @ ?y # (x # post)"
        using ym post by simp
      moreover have "\<forall>t\<in>set (x # post). \<not> lessAge L t ?y"
        using False ym after by simp
      ultimately show ?thesis
        using y by (metis empty_iff list.set(1))
    qed
  next
    case (Cons p pre')
    then have p: "p = ?m'" and xs: "xs = pre' @ ?y # post"
      using split by auto
    have ylt: "lessAge L ?y ?m'"
      using before Cons p by simp
    obtain c where c: "L ?y = Some c"
      using ylt by (auto simp: lessAge_def split: option.splits)
    have "lessAge L ?y m \<and> lessAge L ?y x"
      using ylt ages c by (auto simp: lessAge_def split: if_splits)
    moreover have "\<forall>t\<in>set pre'. lessAge L ?y t"
      using before Cons by simp
    ultimately have "\<forall>t\<in>set (m # x # pre'). lessAge L ?y t"
      by simp
    moreover have "m # x # xs = (m # x # pre') @ ?y # post"
      using xs by simp
    ultimately show ?thesis
      using after y by metis
  qed
qed

lemma selectAndClose_all_candidates:
  assumes "concat g = t # ts" and "set (candidates threshold L (concat g)) = set (concat g)"
  shows "selectAndClose threshold L g = filter (\<lambda>c. c \<noteq> youngest L t ts) (concat g)"
  using assms candidates_all_eq [OF assms(2)] by (simp add: selectAndClose_def)

lemma selectAndClose_some_kept:
  assumes "set (candidates threshold L (concat g)) \<noteq> set (concat g)"
  shows "selectAndClose threshold L g = candidates threshold L (concat g)"
  using assms unfolding selectAndClose_def Let_def
  by (cases "concat g") (simp_all only: list.case if_False)

lemma selectAndClose_as_filter:
  assumes "concat g \<noteq> []"
  shows "\<exists>P. selectAndClose threshold L g = filter P (concat g)
             \<and> (\<exists>t\<in>set (concat g). \<not> P t)"
proof (cases "set (candidates threshold L (concat g)) = set (concat g)")
  case True
  obtain t ts where ts: "concat g = t # ts"
    using assms by (cases "concat g") auto
  have "youngest L t ts \<in> set (concat g)"
    using youngest_in [of L t ts] ts by simp
  with selectAndClose_all_candidates [OF ts True] show ?thesis
    by blast
next
  case False
  have "\<exists>t\<in>set (concat g). t \<notin> set (candidates threshold L (concat g))"
    using False candidates_subset [of threshold L "concat g"] by blast
  then show ?thesis
    using selectAndClose_some_kept [OF False] unfolding candidates_def by auto
qed

text \<open>
  C4. With at least one tab open, a closing pass issues close requests for strictly fewer
  tabs than are open, whatever the threshold and the ledger, so a tab stays open. When
  every open tab is a candidate, the tab left out is the first open tab, in the order of
  the groups, of the smallest Age Counter: the tabs before it are strictly older, the tabs
  after it are at least as old, and close requests go to all other tabs.
\<close>

theorem selectAndClose_keeps_a_tab:
  assumes "concat g \<noteq> []"
  shows "length (selectAndClose threshold L g) < length (concat g)
       \<and> set (selectAndClose threshold L g) \<subset> set (concat g)
       \<and> (set (candidates threshold L (concat g)) = set (concat g) \<longrightarrow>
            (\<exists>pre y post a.
               concat g = pre @ y # post \<and> L y = Some a
               \<and> (\<forall>t\<in>set pre. \<exists>b. L t = Some b \<and> a < b)
               \<and> (\<forall>t\<in>set post. \<exists>b. L t = Some b \<and> a \<le> b)
               \<and> selectAndClose threshold L g = filter (\<lambda>c. c \<noteq> y) (concat g)
               \<and> y \<notin> set (selectAndClose threshold L g)))"
proof (intro conjI impI)
  from selectAndClose_as_filter [OF assms] obtain P t where
    sel: "selectAndClose threshold L g = filter P (concat g)"
    and t: "t \<in> set (concat g)" "\<not> P t"
    by blast
  show "length (selectAndClose threshold L g) < length (concat g)"
    unfolding sel using t by (rule length_filter_less)
  show "set (selectAndClose threshold L g) \<subset> set (concat g)"
    unfolding sel using t by auto
next
  assume all: "set (candidates threshold L (concat g)) = set (concat g)"
  obtain m ts where ts: "concat g = m # ts"
    using assms by (cases "concat g") auto
  let ?y = "youngest L m ts"
  have aged: "\<forall>t\<in>set (m # ts). L t \<noteq> None"
    using candidates_all_aged [OF all] ts by fastforce
  from youngest_position [OF aged] obtain pre post where
    split: "m # ts = pre @ ?y # post"
    and before: "\<forall>t\<in>set pre. lessAge L ?y t"
    and after: "\<forall>t\<in>set post. \<not> lessAge L t ?y"
    by blast
  have "?y \<in> set (m # ts)"
    by (rule youngest_in)
  then obtain a where a: "L ?y = Some a"
    using aged by auto
  have older: "\<forall>t\<in>set pre. \<exists>b. L t = Some b \<and> a < b"
    using before a by (auto simp: lessAge_def split: option.splits)
  have "\<forall>t\<in>set post. L t \<noteq> None"
    using aged split by (metis Un_iff list.set_intros(2) set_append)
  then have not_younger: "\<forall>t\<in>set post. \<exists>b. L t = Some b \<and> a \<le> b"
    using after a by (fastforce simp: lessAge_def split: option.splits)
  have sel: "selectAndClose threshold L g = filter (\<lambda>c. c \<noteq> ?y) (concat g)"
    by (rule selectAndClose_all_candidates [OF ts all])
  have "?y \<notin> set (selectAndClose threshold L g)"
    unfolding sel by simp
  with split a older not_younger sel ts
  show "\<exists>pre y post a.
          concat g = pre @ y # post \<and> L y = Some a
          \<and> (\<forall>t\<in>set pre. \<exists>b. L t = Some b \<and> a < b)
          \<and> (\<forall>t\<in>set post. \<exists>b. L t = Some b \<and> a \<le> b)
          \<and> selectAndClose threshold L g = filter (\<lambda>c. c \<noteq> y) (concat g)
          \<and> y \<notin> set (selectAndClose threshold L g)"
    by metis
qed

theorem selectAndClose_keeps_a_tab_witness:
  "concat [[1, 2], [3 :: nat]] \<noteq> []
   \<and> set (candidates 0 [1 \<mapsto> 5, 2 \<mapsto> 3, 3 \<mapsto> 3] (concat [[1, 2], [3 :: nat]]))
       = set (concat [[1, 2], [3 :: nat]])
   \<and> length (selectAndClose 0 [1 \<mapsto> 5, 2 \<mapsto> 3, 3 \<mapsto> 3] [[1, 2], [3 :: nat]])
       < length (concat [[1, 2], [3 :: nat]])
   \<and> set (selectAndClose 0 [1 \<mapsto> 5, 2 \<mapsto> 3, 3 \<mapsto> 3] [[1, 2], [3 :: nat]])
       \<subset> set (concat [[1, 2], [3 :: nat]])"
proof -
  have n: "concat [[1, 2], [3 :: nat]] \<noteq> []"
    by simp
  have c: "set (candidates 0 [1 \<mapsto> 5, 2 \<mapsto> 3, 3 \<mapsto> 3] (concat [[1, 2], [3 :: nat]]))
             = set (concat [[1, 2], [3 :: nat]])"
    by (simp add: candidates_def)
  from selectAndClose_keeps_a_tab [OF n, of 0 "[1 \<mapsto> 5, 2 \<mapsto> 3, 3 \<mapsto> 3]"]
  have "length (selectAndClose 0 [1 \<mapsto> 5, 2 \<mapsto> 3, 3 \<mapsto> 3] [[1, 2], [3 :: nat]])
          < length (concat [[1, 2], [3 :: nat]])
        \<and> set (selectAndClose 0 [1 \<mapsto> 5, 2 \<mapsto> 3, 3 \<mapsto> 3] [[1, 2], [3 :: nat]])
            \<subset> set (concat [[1, 2], [3 :: nat]])"
    by blast
  with n c show ?thesis
    by blast
qed

end
